theory Spec2Isabelle
  imports Complex_Main
begin

section \<open>Data model\<close>

text \<open>
  Python floats are modelled as mathematical reals: rounding, overflow and the special
  values of IEEE arithmetic are outside this development.  Every exception the code can
  raise on real inputs is a value of the type \<open>error\<close>.
\<close>

datatype error = ZeroDivisionError | ValueError | IndexError

subsection \<open>vector.py: class Vec\<close>

datatype vec = Vec (getX: real) (getY: real)

text \<open>\<open>__neg__\<close>, \<open>__add__\<close>, \<open>__sub__\<close>\<close>

definition neg :: "vec \<Rightarrow> vec" where
  "neg v = Vec (- getX v) (- getY v)"

definition add :: "vec \<Rightarrow> vec \<Rightarrow> vec" where
  "add v other = Vec (getX v + getX other) (getY v + getY other)"

definition sub :: "vec \<Rightarrow> vec \<Rightarrow> vec" where
  "sub v other = Vec (getX v - getX other) (getY v - getY other)"

text \<open>\<open>__mul__\<close> is the dot product, \<open>__rmul__\<close> the product with a scalar on the left.\<close>

definition mul :: "vec \<Rightarrow> vec \<Rightarrow> real" where
  "mul v other = getX v * getX other + getY v * getY other"

definition rmul :: "real \<Rightarrow> vec \<Rightarrow> vec" where
  "rmul other v = Vec (other * getX v) (other * getY v)"

text \<open>\<open>__truediv__\<close>: Python raises on a zero divisor.\<close>

definition truediv :: "vec \<Rightarrow> real \<Rightarrow> error + vec" where
  "truediv v other =
     (if other = 0 then Inl ZeroDivisionError else Inr (Vec (getX v / other) (getY v / other)))"

subsection \<open>body.py: class Body\<close>

type_synonym colour = "int \<times> int \<times> int"

record body =
  mass :: real
  rad :: real
  pos :: vec
  vel :: vec
  colour :: colour
  name :: string
  trace :: "(vec \<times> real \<times> colour) list"

definition Body :: "real \<Rightarrow> real \<Rightarrow> vec \<Rightarrow> vec \<Rightarrow> colour \<Rightarrow> string \<Rightarrow> body" where
  "Body m r p v c n =
     \<lparr>mass = m, rad = r, pos = p, vel = v, colour = c, name = n, trace = []\<rparr>"

definition move :: "real \<Rightarrow> body \<Rightarrow> body" where
  "move dt b = b\<lparr>pos := add (pos b) (rmul dt (vel b))\<rparr>"

definition boost :: "vec \<Rightarrow> body \<Rightarrow> body" where
  "boost bst b = b\<lparr>vel := add (vel b) bst\<rparr>"

text \<open>
  \<open>addTrace\<close>: when the history has at least \<open>cap\<close> entries, the slice \<open>trace[1:]\<close>
  drops the first one (and is the empty list on an empty history); the new sample is
  appended in both branches.
\<close>

definition addTrace :: "int \<Rightarrow> body \<Rightarrow> body" where
  "addTrace cap b =
     (if int (length (trace b)) \<ge> cap
      then b\<lparr>trace := tl (trace b) @ [(pos b, 0.001, colour b)]\<rparr>
      else b\<lparr>trace := trace b @ [(pos b, 0.001, colour b)]\<rparr>)"

definition clearTrace :: "body \<Rightarrow> body" where
  "clearTrace b = b\<lparr>trace := []\<rparr>"


subsection \<open>Orbit Sim Beta.py: coordinate transforms\<close>

text \<open>
  The module-level variables read by \<open>transform\<close> and \<open>detransform\<close>.  \<open>oldCentre\<close> is
  the body the view is centred on, \<open>dimensions\<close> the window size in pixels.
\<close>

record view =
  scale :: real
  shift :: vec
  absolute_centre :: vec
  oldCentre :: body
  dimensions :: "int \<times> int"

definition transform :: "view \<Rightarrow> vec \<Rightarrow> vec" where
  "transform w p =
     (let p1 = sub p (pos (oldCentre w));
          p2 = add p1 (shift w);
          p3 = rmul (scale w) p2
      in add p3 (absolute_centre w))"

definition detransform :: "view \<Rightarrow> vec \<Rightarrow> error + vec" where
  "detransform w p =
     (let p1 = sub p (absolute_centre w)
      in case truediv p1 (scale w) of
           Inl e \<Rightarrow> Inl e
         | Inr p2 \<Rightarrow> Inr (add (sub p2 (shift w)) (pos (oldCentre w))))"

subsection \<open>Radii, collisions, forces\<close>

text \<open>\<open>math.log\<close> raises \<open>ValueError\<close> outside the positive reals.\<close>

definition radScale :: "real \<Rightarrow> error + real" where
  "radScale r = (if r \<le> 0 then Inl ValueError else Inr (2.5 * (log 10 r / 10 ^ 2 - 0.030)))"

text \<open>
  \<open>(pos1-pos2)**2\<close> is \<open>Vec.__pow__\<close> at 2, which is the dot product of the difference
  with itself.
\<close>

definition collision :: "vec \<Rightarrow> real \<Rightarrow> vec \<Rightarrow> real \<Rightarrow> bool" where
  "collision pos1 rad1 pos2 rad2 =
     (let distance = sqrt (mul (sub pos1 pos2) (sub pos1 pos2))
      in distance < rad1 + rad2 + 0.05)"

definition G :: real where
  "G = 1.4881314 * 10 powr (- 34)"

text \<open>
  \<open>gravity\<close>: the force on \<open>obj1\<close> by \<open>obj2\<close>; \<open>force_power\<close> is the exponent read from
  the settings file.
\<close>

definition gravity :: "real \<Rightarrow> body \<Rightarrow> body \<Rightarrow> error + vec" where
  "gravity force_power obj1 obj2 =
     (let Gmm = G * mass obj1 * mass obj2;
          r = sub (pos obj2) (pos obj1)
      in if mul r r \<noteq> 0
         then (let force = Gmm * (mul r r) powr (force_power / 2.0)
               in case truediv r (sqrt (mul r r)) of
                    Inl e \<Rightarrow> Inl e
                  | Inr u \<Rightarrow> Inr (rmul force u))
         else Inr (Vec 0 0))"

definition potential :: "real \<Rightarrow> vec \<Rightarrow> body \<Rightarrow> real" where
  "potential force_power p obj =
     (let Gmm = G * mass obj;
          r = sub (pos obj) p
      in if mul r r \<noteq> 0 then Gmm * (mul r r) powr ((force_power + 1.0) / 2.0) else 0)"

subsection \<open>Potential contour lines\<close>

text \<open>Python's \<open>%\<close> on floats: the result takes the sign of the divisor.\<close>

definition pymod :: "real \<Rightarrow> real \<Rightarrow> error + real" where
  "pymod a b = (if b = 0 then Inl ZeroDivisionError else Inr (a - b * of_int \<lfloor>a / b\<rfloor>))"

definition grid_point :: "view \<Rightarrow> int \<Rightarrow> int \<Rightarrow> int \<Rightarrow> int \<Rightarrow> vec" where
  "grid_point w xpoints ypoints x y =
     Vec (of_int (x * fst (dimensions w)) / of_int xpoints)
         (of_int (y * snd (dimensions w)) / of_int ypoints)"

text \<open>The loop \<open>for mass in system\<close> that sums the potential at one grid point.\<close>

fun pot_sum :: "view \<Rightarrow> real \<Rightarrow> vec \<Rightarrow> body list \<Rightarrow> real \<Rightarrow> error + real" where
  "pot_sum w fp gp [] pot = Inr pot"
| "pot_sum w fp gp (m # ms) pot =
     (case detransform w gp of
        Inl e \<Rightarrow> Inl e
      | Inr q \<Rightarrow> pot_sum w fp gp ms (pot + potential fp q m))"

definition contour_cell ::
  "view \<Rightarrow> real \<Rightarrow> body list \<Rightarrow> int \<Rightarrow> int \<Rightarrow> real \<Rightarrow> real \<Rightarrow> int \<Rightarrow> int \<Rightarrow> vec list
     \<Rightarrow> error + vec list" where
  "contour_cell w fp syst xpoints ypoints step res x y points =
     (let gp = grid_point w xpoints ypoints x y
      in case pot_sum w fp gp syst 0.0 of
           Inl e \<Rightarrow> Inl e
         | Inr pot \<Rightarrow>
             (case pymod pot step of
                Inl e \<Rightarrow> Inl e
              | Inr m \<Rightarrow>
                  if m < res
                  then (case detransform w gp of
                          Inl e \<Rightarrow> Inl e
                        | Inr q \<Rightarrow> Inr (points @ [q]))
                  else Inr points))"

text \<open>The loop over \<open>y\<close> for one column, and the loop over the columns.\<close>

fun contour_column ::
  "view \<Rightarrow> real \<Rightarrow> body list \<Rightarrow> int \<Rightarrow> int \<Rightarrow> real \<Rightarrow> real \<Rightarrow> int \<Rightarrow> int list \<Rightarrow> vec list
     \<Rightarrow> error + vec list" where
  "contour_column w fp syst xpoints ypoints step res x [] points = Inr points"
| "contour_column w fp syst xpoints ypoints step res x (y # ys) points =
     (case contour_cell w fp syst xpoints ypoints step res x y points of
        Inl e \<Rightarrow> Inl e
      | Inr points' \<Rightarrow> contour_column w fp syst xpoints ypoints step res x ys points')"

fun contour_columns ::
  "view \<Rightarrow> real \<Rightarrow> body list \<Rightarrow> int \<Rightarrow> int \<Rightarrow> real \<Rightarrow> real \<Rightarrow> int list \<Rightarrow> vec list
     \<Rightarrow> error + vec list" where
  "contour_columns w fp syst xpoints ypoints step res [] points = Inr points"
| "contour_columns w fp syst xpoints ypoints step res (x # xs) points =
     (case contour_column w fp syst xpoints ypoints step res x [0..ypoints - 1] points of
        Inl e \<Rightarrow> Inl e
      | Inr points' \<Rightarrow> contour_columns w fp syst xpoints ypoints step res xs points')"

definition contourLines ::
  "view \<Rightarrow> real \<Rightarrow> body list \<Rightarrow> int \<Rightarrow> int \<Rightarrow> real \<Rightarrow> real \<Rightarrow> error + vec list" where
  "contourLines w fp syst xpoints ypoints step res =
     contour_columns w fp syst xpoints ypoints step res [0..xpoints - 1] []"

subsection \<open>Colour of a merged body\<close>

text \<open>\<open>int(x/2)\<close> on an integer \<open>x\<close>: true division, then truncation towards zero.\<close>

definition int_half :: "int \<Rightarrow> int" where
  "int_half n = (if 0 \<le> n then n div 2 else - ((- n) div 2))"

fun averageColour :: "colour \<Rightarrow> colour \<Rightarrow> colour" where
  "averageColour (c10, c11, c12) (c20, c21, c22) =
     (int_half (c10 + c21), int_half (c11 + c21), int_half (c12 + c22))"

subsection \<open>The simulation state and one pass of the game loop\<close>

text \<open>
  \<open>centre\<close> is a reference to a \<open>Body\<close> object.  The object is either the one stored in
  a slot of \<open>system\<close> (and then sees every update of that slot), or an object that is not
  in the list: the initial \<open>m0\<close>, or a body whose slot a merge has filled with a new
  object.
\<close>

datatype centre_ref = InSystem nat | Elsewhere body

record sim =
  system :: "body list"
  delete :: "nat list"
  centre :: centre_ref

text \<open>
  The settings and flags one pass reads: the time step, the force exponent, the tracing
  flags and counter, and \<open>sci\<close>, the text of \<open>"{:.2E}".format(Decimal(m))\<close>, which is
  the standard library's.
\<close>

record conf =
  dt :: real
  force_power :: real
  tracing :: bool
  trace_clear :: bool
  trace_counter :: int
  sci :: "real \<Rightarrow> string"

definition trace_cap :: int where
  "trace_cap = 1000"

definition trace_period :: int where
  "trace_period = 4"

definition getVel :: "body list \<Rightarrow> centre_ref \<Rightarrow> vec" where
  "getVel syst c = (case c of InSystem k \<Rightarrow> vel (syst ! k) | Elsewhere b \<Rightarrow> vel b)"

text \<open>The list slice \<open>xs[a:b]\<close> for indices that are not negative.\<close>

definition slice :: "nat \<Rightarrow> nat \<Rightarrow> 'a list \<Rightarrow> 'a list" where
  "slice a b xs = take (b - a) (drop a xs)"

text \<open>
  The impulses of one pair: the \<open>try\<close> block divides by both masses, and the handler of
  \<open>ZeroDivisionError\<close> sets both impulses to zero.
\<close>

definition boosts :: "real \<Rightarrow> body \<Rightarrow> body \<Rightarrow> vec \<Rightarrow> vec \<times> vec" where
  "boosts t bi bj force =
     (if mass bi = 0 \<or> mass bj = 0 then (Vec 0 0, Vec 0 0)
      else (rmul (t / mass bi) force, rmul (- t / mass bj) force))"

text \<open>
  The body that replaces the lower slot of a colliding pair.  The name built from the two
  halves is overwritten by \<open>n1\<close> in the source.
\<close>

definition merged :: "conf \<Rightarrow> body \<Rightarrow> body \<Rightarrow> error + body" where
  "merged cf bi bj =
     (let m1 = mass bi; m2 = mass bj;
          r1 = rad bi; r2 = rad bj;
          r = (r1 ^ 3 + r2 ^ 3) powr (1.0 / 3);
          p = pos bi
      in case truediv (add (rmul m1 (vel bi)) (rmul m2 (vel bj))) (m1 + m2) of
           Inl e \<Rightarrow> Inl e
         | Inr v \<Rightarrow>
             (let c = averageColour (colour bi) (colour bj);
                  n1 = name bi;
                  nm = (if drop (length n1 - 2) n1 = ''kg''
                        then sci cf (m1 + m2) @ ''kg'' else n1)
              in Inr (Body (m1 + m2) r p v c nm)))"

definition sentinel :: body where
  "sentinel = Body 0 1 (Vec 0 0) (Vec 0 0) (0, 0, 0) []"

text \<open>
  A merge puts new objects into slots \<open>i\<close> and \<open>j\<close>: a reference to either of the old
  objects keeps the old object.
\<close>

definition detach :: "body list \<Rightarrow> nat \<Rightarrow> nat \<Rightarrow> centre_ref \<Rightarrow> centre_ref" where
  "detach syst i j c =
     (case c of
        InSystem k \<Rightarrow> if k = i \<or> k = j then Elsewhere (syst ! k) else InSystem k
      | Elsewhere b \<Rightarrow> Elsewhere b)"

text \<open>
  The test of the collision branch,
  \<open>collision(system[i].getPos(), radScale(system[i].getRad()), system[j].getPos(),
  radScale(system[j].getRad()))\<close>.
\<close>

definition collides :: "body \<Rightarrow> body \<Rightarrow> error + bool" where
  "collides bi bj =
     (case radScale (rad bi) of
        Inl e \<Rightarrow> Inl e
      | Inr rs1 \<Rightarrow>
          (case radScale (rad bj) of
             Inl e \<Rightarrow> Inl e
           | Inr rs2 \<Rightarrow> Inr (collision (pos bi) rs1 (pos bj) rs2)))"

text \<open>The body of the inner loop, for one pair \<open>i\<close>, \<open>j\<close>.\<close>

definition pair_step :: "conf \<Rightarrow> nat \<Rightarrow> nat \<Rightarrow> sim \<Rightarrow> error + sim" where
  "pair_step cf i j st =
     (case gravity (force_power cf) (system st ! i) (system st ! j) of
        Inl e \<Rightarrow> Inl e
      | Inr force \<Rightarrow>
          (let (boost1, boost2) = boosts (dt cf) (system st ! i) (system st ! j) force;
               s1 = (system st)[i := boost boost1 (system st ! i)];
               s2 = s1[j := boost boost2 (s1 ! j)]
           in case collides (s2 ! i) (s2 ! j) of
                Inl e \<Rightarrow> Inl e
              | Inr hit \<Rightarrow>
                  if hit
                  then (case merged cf (s2 ! i) (s2 ! j) of
                          Inl e \<Rightarrow> Inl e
                        | Inr b \<Rightarrow>
                            Inr (st\<lparr>system := take i s2 @ [b] @ slice (i + 1) j s2
                                                @ [sentinel] @ drop (j + 1) s2,
                                    delete := delete st @ [j],
                                    centre := detach s2 i j (centre st)\<rparr>))
                  else Inr (st\<lparr>system := s2\<rparr>)))"

text \<open>\<open>for j in range(i+1, len(system))\<close> and \<open>for i in range(len(system))\<close>.\<close>

fun inner_loop :: "conf \<Rightarrow> nat \<Rightarrow> nat list \<Rightarrow> sim \<Rightarrow> error + sim" where
  "inner_loop cf i [] st = Inr st"
| "inner_loop cf i (j # js) st =
     (case pair_step cf i j st of
        Inl e \<Rightarrow> Inl e
      | Inr st' \<Rightarrow> inner_loop cf i js st')"

fun outer_loop :: "conf \<Rightarrow> nat list \<Rightarrow> sim \<Rightarrow> error + sim" where
  "outer_loop cf [] st = Inr st"
| "outer_loop cf (i # is) st =
     (case inner_loop cf i [i + 1 ..< length (system st)] st of
        Inl e \<Rightarrow> Inl e
      | Inr st' \<Rightarrow> outer_loop cf is st')"

definition pair_scan :: "conf \<Rightarrow> sim \<Rightarrow> error + sim" where
  "pair_scan cf st = outer_loop cf [0 ..< length (system st)] (st\<lparr>delete := []\<rparr>)"

text \<open>
  \<open>del system[d]\<close> for every marked index, largest first; \<open>del\<close> raises \<open>IndexError\<close>
  on an index that is out of range.  Slots above the removed one move down by one.
\<close>

definition del_ref :: "body list \<Rightarrow> nat \<Rightarrow> centre_ref \<Rightarrow> centre_ref" where
  "del_ref syst d c =
     (case c of
        InSystem k \<Rightarrow>
          if k = d then Elsewhere (syst ! k) else if d < k then InSystem (k - 1) else InSystem k
      | Elsewhere b \<Rightarrow> Elsewhere b)"

fun del_loop :: "nat list \<Rightarrow> sim \<Rightarrow> error + sim" where
  "del_loop [] st = Inr st"
| "del_loop (d # ds) st =
     (if d < length (system st)
      then del_loop ds (st\<lparr>system := take d (system st) @ drop (d + 1) (system st),
                            centre := del_ref (system st) d (centre st)\<rparr>)
      else Inl IndexError)"

definition sweep :: "sim \<Rightarrow> error + sim" where
  "sweep st =
     (let dl = rev (sorted_list_of_set (set (delete st)))
      in del_loop dl (st\<lparr>delete := dl\<rparr>))"

text \<open>
  The loop \<open>for mass in system\<close> of an unpaused pass, without its drawing and mouse
  calls: frame shift, move, trace.  \<open>vshift\<close> is read once, before the loop.
\<close>

definition advance_body :: "conf \<Rightarrow> vec \<Rightarrow> body \<Rightarrow> body" where
  "advance_body cf vshift b =
     (let b1 = boost (neg vshift) b;
          b2 = move (dt cf) b1;
          b3 = (if tracing cf \<and> trace_counter cf mod trace_period = 0
                then addTrace trace_cap b2 else b2)
      in if trace_clear cf then clearTrace b3 else b3)"

definition advance :: "conf \<Rightarrow> sim \<Rightarrow> sim" where
  "advance cf st =
     (let vshift = getVel (system st) (centre st)
      in st\<lparr>system := map (advance_body cf vshift) (system st)\<rparr>)"

text \<open>One unpaused pass of the game loop over the bodies.\<close>

definition tick :: "conf \<Rightarrow> sim \<Rightarrow> error + sim" where
  "tick cf st =
     (case pair_scan cf st of
        Inl e \<Rightarrow> Inl e
      | Inr st1 \<Rightarrow>
          (case sweep st1 of
             Inl e \<Rightarrow> Inl e
           | Inr st2 \<Rightarrow> Inr (advance cf st2)))"

section \<open>Notions of the specification\<close>

text \<open>
  The force law in the specification's words, in coordinates: with \<open>r = pos_b - pos_a\<close>
  of components \<open>dx\<close>, \<open>dy\<close> and length \<open>d\<close>, the force is \<open>G * m_a * m_b * d^p\<close> times
  the unit vector \<open>(dx/d, dy/d)\<close>, and the zero vector at zero separation.
\<close>

definition force_spec :: "real \<Rightarrow> body \<Rightarrow> body \<Rightarrow> vec" where
  "force_spec p a b =
     (let dx = getX (pos b) - getX (pos a);
          dy = getY (pos b) - getY (pos a);
          d = sqrt (dx * dx + dy * dy)
      in if d = 0 then Vec 0 0
         else Vec (G * mass a * mass b * d powr p * (dx / d))
                  (G * mass a * mass b * d powr p * (dy / d)))"

text \<open>Total momentum and total mass of a registry.\<close>

definition momentum :: "body list \<Rightarrow> vec" where
  "momentum bs =
     Vec (sum_list (map (\<lambda>b. mass b * getX (vel b)) bs))
         (sum_list (map (\<lambda>b. mass b * getY (vel b)) bs))"

definition total_mass :: "body list \<Rightarrow> real" where
  "total_mass bs = sum_list (map mass bs)"

text \<open>A registry in which no pair of bodies passes the collision test.\<close>

definition quiet :: "body list \<Rightarrow> bool" where
  "quiet bs = (\<forall>j < length bs. \<forall>i < j. collides (bs ! i) (bs ! j) = Inr False)"

text \<open>
  A run of \<open>addTrace\<close> calls with one cap, the body standing at the next position of the
  list at each call.
\<close>

fun record_calls :: "int \<Rightarrow> vec list \<Rightarrow> body \<Rightarrow> body" where
  "record_calls cap [] b = b"
| "record_calls cap (p # ps) b = record_calls cap ps (addTrace cap (b\<lparr>pos := p\<rparr>))"

text \<open>The component-wise average of two colours, each channel truncated to an integer.\<close>

fun average_spec :: "colour \<Rightarrow> colour \<Rightarrow> colour" where
  "average_spec (r1, g1, b1) (r2, g2, b2) =
     (int_half (r1 + r2), int_half (g1 + g2), int_half (b1 + b2))"

text \<open>The world point of a grid cell: what \<open>detransform\<close> returns at a nonzero scale.\<close>

definition world_point :: "view \<Rightarrow> int \<Rightarrow> int \<Rightarrow> int \<Rightarrow> int \<Rightarrow> vec" where
  "world_point w xpoints ypoints x y =
     (let gp = grid_point w xpoints ypoints x y;
          p1 = sub gp (absolute_centre w)
      in add (sub (Vec (getX p1 / scale w) (getY p1 / scale w)) (shift w)) (pos (oldCentre w)))"

section \<open>The pair scan as a run of steps: definitions\<close>

text \<open>
  The pairs the two loops visit, in order, and the run of \<open>pair_step\<close> over a list of
  pairs; \<open>pair_scan_steps\<close> below shows that the nested loops are this run.
\<close>

definition pairs :: "nat \<Rightarrow> (nat \<times> nat) list" where
  "pairs n = concat (map (\<lambda>i. map (Pair i) [i + 1 ..< n]) [0 ..< n])"

fun steps :: "conf \<Rightarrow> (nat \<times> nat) list \<Rightarrow> sim \<Rightarrow> error + sim" where
  "steps cf [] st = Inr st"
| "steps cf ((i, j) # ps) st =
     (case pair_step cf i j st of
        Inl e \<Rightarrow> Inl e
      | Inr st' \<Rightarrow> steps cf ps st')"

text \<open>
  The state \<open>s\<close> differs from \<open>st\<close> in velocities only, and has the same total
  momentum.
\<close>

definition still :: "sim \<Rightarrow> sim \<Rightarrow> bool" where
  "still st s \<longleftrightarrow>
     map rad (system s) = map rad (system st) \<and> map pos (system s) = map pos (system st) \<and>
     map mass (system s) = map mass (system st) \<and>
     delete s = delete st \<and> centre s = centre st \<and>
     momentum (system s) = momentum (system st)"

text \<open>
  Every slot of \<open>s\<close> that is not marked for removal has the position it has in \<open>st\<close>,
  and every marked slot has the position of the placeholder, the origin.
\<close>

definition unmoved :: "sim \<Rightarrow> sim \<Rightarrow> bool" where
  "unmoved st s \<longleftrightarrow>
     length (system s) = length (system st) \<and>
     (\<forall>k < length (system st).
        if k \<in> set (delete s) then pos (system s ! k) = Vec 0 0
        else pos (system s ! k) = pos (system st ! k))"

section \<open>Concrete registries\<close>

text \<open>
  The initial reference body \<open>m0\<close> of the program, its initial view in a window of
  800 by 600 pixels, and settings with the inverse-square law.
\<close>

definition m0 :: body where
  "m0 = Body 0 1 (Vec 0 0) (Vec 0 0) (0, 0, 0) []"

definition view0 :: view where
  "view0 = \<lparr>scale = 24, shift = Vec 0 0, absolute_centre = Vec 400 300,
            oldCentre = m0, dimensions = (800, 600)\<rparr>"

definition conf0 :: conf where
  "conf0 = \<lparr>dt = 1, force_power = - 2, tracing = False, trace_clear = False,
            trace_counter = 0, sci = (\<lambda>m. [])\<rparr>"

text \<open>
  The two bodies of the merge example of the specification: equal masses, opposite
  velocities, 0.01 apart.
\<close>

definition bodyA :: body where
  "bodyA = Body 10 1000 (Vec 0 0) (Vec 1 0) (255, 0, 0) ''A''"

definition bodyB :: body where
  "bodyB = Body 10 1000 (Vec 0.01 0) (Vec (- 1) 0) (0, 0, 255) ''B''"

definition pairAB :: sim where
  "pairAB = \<lparr>system = [bodyA, bodyB], delete = [], centre = Elsewhere m0\<rparr>"

text \<open>Two bodies of unequal mass, 0.01 apart, with velocities in both coordinates.\<close>

definition bodyD :: body where
  "bodyD = Body 10 1000 (Vec 3 4) (Vec 1 2) (255, 0, 0) ''D''"

definition bodyH :: body where
  "bodyH = Body 30 10000 (Vec 3.01 4) (Vec 0 (- 2)) (0, 0, 255) ''H''"

definition pairDH :: sim where
  "pairDH = \<lparr>system = [bodyD, bodyH], delete = [], centre = Elsewhere m0\<rparr>"

text \<open>Two bodies five units apart; the first is the reference body.\<close>

definition bodyP :: body where
  "bodyP = Body 1 1000 (Vec 0 0) (Vec 1 0) (255, 0, 0) ''P''"

definition bodyQ :: body where
  "bodyQ = Body 1 1000 (Vec 3 4) (Vec 0 0) (0, 255, 0) ''Q''"

definition duo :: sim where
  "duo = \<lparr>system = [bodyP, bodyQ], delete = [], centre = InSystem 0\<rparr>"

text \<open>
  Three bodies: X and Y at the same place, and Z at the origin.  \<open>bodyXY\<close> is the merge
  of X and Y.
\<close>

definition bodyX :: body where
  "bodyX = Body 10 1000 (Vec 10 0) (Vec 0 0) (255, 0, 0) ''X''"

definition bodyY :: body where
  "bodyY = Body 10 1000 (Vec 10 0) (Vec 0 0) (0, 0, 255) ''Y''"

definition bodyZ :: body where
  "bodyZ = Body 5 1000000 (Vec 0 0) (Vec 0 0) (0, 255, 0) ''Z''"

definition trio :: sim where
  "trio = \<lparr>system = [bodyX, bodyY, bodyZ], delete = [], centre = Elsewhere m0\<rparr>"

definition bodyXY :: body where
  "bodyXY = Body 20 ((1000 ^ 3 + 1000 ^ 3) powr (1 / 3)) (Vec 10 0) (Vec 0 0) (127, 0, 127) ''X''"

section \<open>The force law\<close>

lemma sqrt_powr: "0 < x \<Longrightarrow> x powr (p / 2) = sqrt x powr p"
  by (simp add: powr_half_sqrt[symmetric] powr_powr)

lemma mul_self_nonneg: "0 \<le> mul r r"
  by (simp add: mul_def)

lemma gravity_eq: "gravity p a b = Inr (force_spec p a b)"
proof -
  let ?dx = "getX (pos b) - getX (pos a)" and ?dy = "getY (pos b) - getY (pos a)"
  let ?r = "sub (pos b) (pos a)"
  let ?q = "?dx * ?dx + ?dy * ?dy"
  have m: "mul ?r ?r = ?q" by (simp add: mul_def sub_def)
  have x: "getX ?r = ?dx" "getY ?r = ?dy" by (simp_all add: sub_def)
  show ?thesis
  proof (cases "?q = 0")
    case True
    then show ?thesis by (simp add: gravity_def force_spec_def Let_def m)
  next
    case False
    have "0 \<le> ?q" by simp
    with False have q: "0 < ?q" by linarith
    have "0 < sqrt ?q" using q by (simp only: real_sqrt_gt_0_iff)
    then have s: "sqrt ?q \<noteq> 0" by linarith
    have "gravity p a b = Inr (rmul (G * mass a * mass b * ?q powr (p / 2))
                                (Vec (?dx / sqrt ?q) (?dy / sqrt ?q)))"
      using False s by (simp add: gravity_def Let_def m truediv_def x)
    also have "?q powr (p / 2) = sqrt ?q powr p" using q by (rule sqrt_powr)
    finally show ?thesis using s by (simp add: force_spec_def Let_def rmul_def)
  qed
qed

lemma G_value: "G = 14881314 / 10 ^ 41"
  by (simp add: G_def powr_minus powr_numeral field_simps)

text \<open>
  Claim C4.  For all bodies \<open>a\<close> and \<open>b\<close> and every exponent \<open>p\<close>, \<open>gravity\<close> returns,
  without raising, \<open>G * mass a * mass b * |r|^p\<close> times the unit vector \<open>r/|r|\<close> of
  \<open>r = pos b - pos a\<close>, written out in coordinates, and the zero vector when \<open>|r| = 0\<close>;
  \<open>G\<close> is the constant 1.4881314e-34 of the program.
\<close>

theorem gravity_force_spec:
  "gravity p a b =
     Inr (let dx = getX (pos b) - getX (pos a);
              dy = getY (pos b) - getY (pos a);
              d = sqrt (dx * dx + dy * dy)
          in if d = 0 then Vec 0 0
             else Vec (G * mass a * mass b * d powr p * (dx / d))
                      (G * mass a * mass b * d powr p * (dy / d))) \<and>
   gravity p a b = Inr (force_spec p a b) \<and>
   G = 14881314 / 10 ^ 41"
  using gravity_eq[of p a b] G_value by (simp add: force_spec_def)

section \<open>The trace history\<close>

lemma addTrace_step:
  assumes "1 \<le> cap" "int (length (trace b)) \<le> cap"
  shows "trace (addTrace cap b) =
     drop (length (trace b) + 1 - nat cap) (trace b @ [(pos b, 0.001, colour b)])"
proof (cases "int (length (trace b)) \<ge> cap")
  case True
  with assms have l: "length (trace b) = nat cap" by linarith
  with assms have ne: "trace b \<noteq> []" by auto
  have "drop (length (trace b) + 1 - nat cap) (trace b @ [(pos b, 0.001, colour b)])
        = drop 1 (trace b @ [(pos b, 0.001, colour b)])" using l by simp
  also have "\<dots> = tl (trace b) @ [(pos b, 0.001, colour b)]"
    using ne by (cases "trace b") simp_all
  finally show ?thesis using True by (simp add: addTrace_def)
next
  case False
  then have "length (trace b) + 1 - nat cap = 0" by linarith
  then show ?thesis using False by (simp add: addTrace_def)
qed

text \<open>
  Claim C6, as stated, at cap 0: one \<open>addTrace\<close> call on a fresh body leaves a history
  of length 1, which exceeds the cap.
\<close>

theorem addTrace_cap_zero_exceeds:
  "\<not> int (length (trace (record_calls 0 [Vec 0 0] m0))) \<le> 0"
  by (simp add: addTrace_def m0_def Body_def)

text \<open>
  Claim C6, amended.  For every cap of at least 1 and every body whose history holds at
  most cap entries (a fresh body has none), after any run of \<open>addTrace\<close> calls the
  history holds at most cap entries, and it is the old history followed by the new
  samples in call order with the oldest entries dropped: first in, first out.
\<close>

theorem addTrace_bounded_fifo:
  assumes "1 \<le> cap" "int (length (trace b)) \<le> cap"
  shows "int (length (trace (record_calls cap ps b))) \<le> cap \<and>
         trace (record_calls cap ps b) =
           drop (length (trace b) + length ps - nat cap)
                (trace b @ map (\<lambda>p. (p, 0.001, colour b)) ps)"
  using assms
proof (induction ps arbitrary: b)
  case Nil
  then show ?case by simp
next
  case (Cons p ps)
  let ?b = "addTrace cap (b\<lparr>pos := p\<rparr>)"
  let ?x = "(p, 0.001::real, colour b)"
  let ?k = "length (trace b) + 1 - nat cap"
  have c: "colour ?b = colour b" by (simp add: addTrace_def)
  have t: "trace ?b = drop ?k (trace b @ [?x])"
    using addTrace_step[of cap "b\<lparr>pos := p\<rparr>"] Cons.prems by simp
  have k: "?k \<le> length (trace b) + 1" by simp
  have l: "int (length (trace ?b)) \<le> cap"
    using Cons.prems by (simp add: t)
  have len: "length (trace ?b) + length ps - nat cap + ?k
             = length (trace b) + length (p # ps) - nat cap"
    using Cons.prems by (simp add: t)
  note IH = Cons.IH[OF Cons.prems(1) l]
  have "trace (record_calls cap (p # ps) b) = trace (record_calls cap ps ?b)" by simp
  also have "\<dots> = drop (length (trace ?b) + length ps - nat cap)
                (drop ?k (trace b @ [?x]) @ map (\<lambda>p. (p, 0.001, colour b)) ps)"
    using IH by (simp add: c t)
  also have "drop ?k (trace b @ [?x]) @ map (\<lambda>p. (p, 0.001, colour b)) ps
      = drop ?k (trace b @ map (\<lambda>p. (p, 0.001, colour b)) (p # ps))"
  proof -
    have "drop ?k ((trace b @ [?x]) @ map (\<lambda>p. (p, 0.001, colour b)) ps)
          = drop ?k (trace b @ [?x]) @ map (\<lambda>p. (p, 0.001, colour b)) ps"
      using k by (simp only: drop_append length_append list.size) simp
    then show ?thesis by simp
  qed
  also have "drop (length (trace ?b) + length ps - nat cap) \<dots> =
     drop (length (trace b) + length (p # ps) - nat cap)
       (trace b @ map (\<lambda>p. (p, 0.001, colour b)) (p # ps))"
    by (simp only: drop_drop len)
  finally have eq: "trace (record_calls cap (p # ps) b) =
     drop (length (trace b) + length (p # ps) - nat cap)
       (trace b @ map (\<lambda>p. (p, 0.001, colour b)) (p # ps))" .
  from IH have "int (length (trace (record_calls cap ps ?b))) \<le> cap"
    by (rule conjunct1)
  then have "int (length (trace (record_calls cap (p # ps) b))) \<le> cap"
    by (simp only: record_calls.simps)
  then show ?case using eq by (rule conjI)
qed

theorem addTrace_bounded_fifo_witness:
  "trace (record_calls 2 [Vec 1 0, Vec 2 0, Vec 3 0] m0) =
     [(Vec 2 0, 0.001, (0, 0, 0)), (Vec 3 0, 0.001, (0, 0, 0))]"
proof -
  have h1: "(1::int) \<le> 2" by simp
  have h2: "int (length (trace m0)) \<le> 2" by (simp add: m0_def Body_def)
  have "trace (record_calls 2 [Vec 1 0, Vec 2 0, Vec 3 0] m0) =
           drop (length (trace m0) + length [Vec 1 0, Vec 2 0, Vec 3 0] - nat 2)
                (trace m0 @ map (\<lambda>p. (p, 0.001, colour m0)) [Vec 1 0, Vec 2 0, Vec 3 0])"
    using addTrace_bounded_fifo[OF h1 h2, of "[Vec 1 0, Vec 2 0, Vec 3 0]"] by (rule conjunct2)
  then show ?thesis by (simp add: m0_def Body_def)
qed

text \<open>
  Claim C10, as stated, on an empty history with cap 0: the length is at or above the
  cap, and the call changes it from 0 to 1.
\<close>

theorem addTrace_empty_grows:
  "0 \<le> int (length (trace m0)) \<and>
   length (trace (addTrace 0 m0)) \<noteq> length (trace m0)"
  by (simp add: addTrace_def m0_def Body_def)

text \<open>
  Claim C10, amended.  For every body and every cap, one \<open>addTrace\<close> call appends the
  new sample after removing at most the oldest entry: the length grows by one when it is
  below the cap or the history is empty, and is unchanged otherwise; a history longer
  than the cap is not cut down to the cap.
\<close>

theorem addTrace_length:
  "trace (addTrace cap b) =
     drop (if cap \<le> int (length (trace b)) then 1 else 0) (trace b)
       @ [(pos b, 0.001, colour b)] \<and>
   length (trace (addTrace cap b)) =
     (if int (length (trace b)) < cap \<or> trace b = []
      then length (trace b) + 1 else length (trace b))"
  by (cases "trace b") (simp_all add: addTrace_def drop_Suc)

section \<open>Coordinate transforms\<close>

text \<open>
  Claim C7.  For every world point and every view state with nonzero scale,
  \<open>detransform\<close> applied to the result of \<open>transform\<close> returns the point.
\<close>

theorem detransform_transform:
  "scale w \<noteq> 0 \<Longrightarrow> detransform w (transform w p) = Inr p"
  by (cases p)
    (simp add: detransform_def transform_def truediv_def add_def sub_def rmul_def Let_def)

theorem detransform_transform_witness:
  "detransform view0 (transform view0 (Vec 1 2)) = Inr (Vec 1 2)"
proof -
  have "scale view0 \<noteq> 0" by (simp add: view0_def)
  then show ?thesis by (rule detransform_transform)
qed

section \<open>Colour of a merged body\<close>

text \<open>
  Claim C8 at the colours \<open>(0, 0, 0)\<close> and \<open>(200, 100, 0)\<close>: \<open>averageColour\<close> returns red
  50, from the green channel of the second colour, where the component-wise average
  has red 100.
\<close>

theorem averageColour_red_from_green:
  "averageColour (0, 0, 0) (200, 100, 0) = (50, 50, 0) \<and>
   average_spec (0, 0, 0) (200, 100, 0) = (100, 50, 0)"
  by (simp add: int_half_def)

section \<open>The step of one pair\<close>

lemma merge_update:
  assumes "i < j" "j < length s"
  shows "take i s @ [b] @ slice (i + 1) j s @ [sn] @ drop (j + 1) s = s[i := b, j := sn]"
proof -
  have i: "i < length (take j s)" using assms by simp
  have "s[i := b, j := sn] = take j (s[i := b]) @ sn # drop (Suc j) (s[i := b])"
    using assms by (simp add: upd_conv_take_nth_drop)
  also have "take j (s[i := b]) = (take j s)[i := b]" by (simp add: take_update_swap)
  also have "\<dots> = take i (take j s) @ b # drop (Suc i) (take j s)"
    using i by (rule upd_conv_take_nth_drop)
  also have "take i (take j s) = take i s" using assms by (simp add: min_def)
  also have "drop (Suc i) (take j s) = slice (i + 1) j s" by (simp add: slice_def drop_take)
  also have "drop (Suc j) (s[i := b]) = drop (j + 1) s" using assms by simp
  finally show ?thesis by simp
qed

lemma collides_boost [simp]:
  "collides (boost x a) (boost y b) = collides a b"
  by (simp add: collides_def boost_def split: sum.splits)


lemma merge_update':
  assumes "i < j" "j < length s"
  shows "take i s @ b # slice (Suc i) j s @ sn # drop (Suc j) s = s[i := b, j := sn]"
  using merge_update[OF assms, of b sn] by simp


lemma slice_update:
  "i < j \<Longrightarrow> slice (Suc i) j (xs[i := a, j := b]) = slice (Suc i) j xs"
  by (simp add: slice_def drop_update_swap)

lemma pair_step_eq:
  assumes "i < j" "j < length (system st)"
  shows "pair_step cf i j st =
    (let bi = system st ! i; bj = system st ! j;
         bs = boosts (dt cf) bi bj (force_spec (force_power cf) bi bj);
         bi' = boost (fst bs) bi; bj' = boost (snd bs) bj
     in case collides bi bj of
          Inl e \<Rightarrow> Inl e
        | Inr hit \<Rightarrow>
            if hit
            then (case merged cf bi' bj' of
                    Inl e \<Rightarrow> Inl e
                  | Inr b \<Rightarrow>
                      Inr (st\<lparr>system := (system st)[i := b, j := sentinel],
                              delete := delete st @ [j],
                              centre := detach ((system st)[i := bi', j := bj']) i j (centre st)\<rparr>))
            else Inr (st\<lparr>system := (system st)[i := bi', j := bj']\<rparr>))"
proof -
  have ne: "i \<noteq> j" "i < length (system st)" using assms by simp_all
  show ?thesis 
    using assms ne
    by (simp add: pair_step_def gravity_eq Let_def split_beta merge_update' slice_update
        split: sum.splits)
qed


lemma collision_iff:
  "collision p1 r1 p2 r2 \<longleftrightarrow>
     0 < r1 + r2 + 0.05 \<and> mul (sub p1 p2) (sub p1 p2) < (r1 + r2 + 0.05)\<^sup>2"
proof (cases "0 < r1 + r2 + 0.05")
  case True
  then have "sqrt (mul (sub p1 p2) (sub p1 p2)) < r1 + r2 + 0.05 \<longleftrightarrow>
        mul (sub p1 p2) (sub p1 p2) < (r1 + r2 + 0.05)\<^sup>2"
    using real_sqrt_less_iff[of "mul (sub p1 p2) (sub p1 p2)" "(r1 + r2 + 0.05)\<^sup>2"]
    by simp
  then show ?thesis using True by (simp add: collision_def Let_def)
next
  case False
  have "0 \<le> sqrt (mul (sub p1 p2) (sub p1 p2))" using mul_self_nonneg by simp
  then have "\<not> sqrt (mul (sub p1 p2) (sub p1 p2)) < r1 + r2 + 0.05"
    using False by linarith
  then show ?thesis using False by (simp add: collision_def Let_def)
qed

lemma log10_power: "log 10 (10 ^ n) = real n"
  by (simp add: log_nat_power)

lemma radScale_power: "radScale (10 ^ n) = Inr (2.5 * (real n / 100 - 0.030))"
proof -
  have "(0::real) < 10 ^ n" by simp
  then have "\<not> (10::real) ^ n \<le> 0" by linarith
  then show ?thesis by (simp add: radScale_def log10_power)
qed

lemma radScale_1000: "radScale 1000 = Inr 0"
  using radScale_power[of 3] by simp

lemma boosts_cancel:
  "boosts t bi bj F = (b1, b2) \<Longrightarrow>
   add (rmul (mass bi) (add (vel bi) b1)) (rmul (mass bj) (add (vel bj) b2))
     = add (rmul (mass bi) (vel bi)) (rmul (mass bj) (vel bj))"
  by (auto simp: boosts_def add_def rmul_def algebra_simps split: if_splits)

lemma merged_eq:
  "mass bi + mass bj \<noteq> 0 \<Longrightarrow>
   merged cf bi bj =
     Inr (Body (mass bi + mass bj) ((rad bi ^ 3 + rad bj ^ 3) powr (1 / 3)) (pos bi)
            (Vec ((mass bi * getX (vel bi) + mass bj * getX (vel bj)) / (mass bi + mass bj))
                 ((mass bi * getY (vel bi) + mass bj * getY (vel bj)) / (mass bi + mass bj)))
            (averageColour (colour bi) (colour bj))
            (if drop (length (name bi) - 2) (name bi) = ''kg''
             then sci cf (mass bi + mass bj) @ ''kg'' else name bi))"
  by (simp add: merged_def truediv_def add_def rmul_def Let_def)

lemma collides_AB: "collides bodyA bodyB = Inr True"
  by (simp add: collides_def bodyA_def bodyB_def Body_def radScale_1000 collision_iff
      mul_def sub_def power2_eq_square)

lemma radScale_10000: "radScale 10000 = Inr 0.025"
  using radScale_power[of 4] by simp

lemma collides_DH: "collides bodyD bodyH = Inr True"
  by (simp add: collides_def bodyD_def bodyH_def Body_def radScale_1000 radScale_10000
      collision_iff mul_def sub_def power2_eq_square)

text \<open>
  Claim C1.  When the pair \<open>i < j\<close> collides and the two masses have a positive sum, the
  step of the pair succeeds and leaves in slot \<open>i\<close> a body with the sum of the masses,
  the radius \<open>(r1^3 + r2^3)^(1/3)\<close>, the position of body \<open>i\<close> and the velocity
  \<open>(m1*v1 + m2*v2)/(m1+m2)\<close>, written out in coordinates, for the velocities \<open>v1\<close>,
  \<open>v2\<close> the two bodies have when the step begins (the impulses of the pair cancel in
  the weighted sum).  The instances below merge A (mass 10, velocity (1,0)) with B
  (mass 10, velocity (-1,0)) into mass 20 and velocity (0,0), and D (mass 10, velocity
  (1,2)) with H (mass 30, velocity (0,-2)) into mass 40 and velocity (1/4,-1).
\<close>

theorem merge_result:
  assumes "i < j" "j < length (system st)"
    and "collides (system st ! i) (system st ! j) = Inr True"
    and "0 < mass (system st ! i) + mass (system st ! j)"
  shows "\<exists>st'. pair_step cf i j st = Inr st' \<and>
           length (system st') = length (system st) \<and>
           mass (system st' ! i) = mass (system st ! i) + mass (system st ! j) \<and>
           rad (system st' ! i) = (rad (system st ! i) ^ 3 + rad (system st ! j) ^ 3) powr (1 / 3) \<and>
           pos (system st' ! i) = pos (system st ! i) \<and>
           vel (system st' ! i) =
             Vec ((mass (system st ! i) * getX (vel (system st ! i)) +
                   mass (system st ! j) * getX (vel (system st ! j)))
                  / (mass (system st ! i) + mass (system st ! j)))
                 ((mass (system st ! i) * getY (vel (system st ! i)) +
                   mass (system st ! j) * getY (vel (system st ! j)))
                  / (mass (system st ! i) + mass (system st ! j)))"
proof -
  let ?bi = "system st ! i" and ?bj = "system st ! j"
  obtain b1 b2 where bs: "boosts (dt cf) ?bi ?bj (force_spec (force_power cf) ?bi ?bj) = (b1, b2)"
    by (cases "boosts (dt cf) ?bi ?bj (force_spec (force_power cf) ?bi ?bj)")
  have m: "mass (boost b1 ?bi) + mass (boost b2 ?bj) \<noteq> 0" using assms(4) by (simp add: boost_def)
  have ne: "i \<noteq> j" "i < length (system st)" using assms by simp_all
  have c: "add (rmul (mass ?bi) (add (vel ?bi) b1)) (rmul (mass ?bj) (add (vel ?bj) b2))
     = add (rmul (mass ?bi) (vel ?bi)) (rmul (mass ?bj) (vel ?bj))"
    using bs by (rule boosts_cancel)
  have cx: "mass ?bi * getX (add (vel ?bi) b1) + mass ?bj * getX (add (vel ?bj) b2)
            = mass ?bi * getX (vel ?bi) + mass ?bj * getX (vel ?bj)"
    and cy: "mass ?bi * getY (add (vel ?bi) b1) + mass ?bj * getY (add (vel ?bj) b2)
            = mass ?bi * getY (vel ?bi) + mass ?bj * getY (vel ?bj)"
    using c by (simp_all add: add_def rmul_def)
  show ?thesis
    using assms ne
    by (simp add: pair_step_eq[OF assms(1,2)] bs Let_def merged_eq[OF m])
       (simp add: Body_def boost_def cx cy)
qed

theorem merge_result_witness:
  "(\<exists>st'. pair_step conf0 0 1 pairAB = Inr st' \<and>
         mass (system st' ! 0) = 20 \<and>
         rad (system st' ! 0) = (1000 ^ 3 + 1000 ^ 3) powr (1 / 3) \<and>
         pos (system st' ! 0) = Vec 0 0 \<and>
         vel (system st' ! 0) = Vec 0 0) \<and>
   (\<exists>st'. pair_step conf0 0 1 pairDH = Inr st' \<and>
         mass (system st' ! 0) = 40 \<and>
         rad (system st' ! 0) = (1000 ^ 3 + 10000 ^ 3) powr (1 / 3) \<and>
         pos (system st' ! 0) = Vec 3 4 \<and>
         vel (system st' ! 0) = Vec (1 / 4) (- 1))"
proof -
  have h1: "(0::nat) < 1" by simp
  have a2: "1 < length (system pairAB)" by (simp add: pairAB_def)
  have a3: "collides (system pairAB ! 0) (system pairAB ! 1) = Inr True"
    by (simp add: pairAB_def collides_AB)
  have a4: "0 < mass (system pairAB ! 0) + mass (system pairAB ! 1)"
    by (simp add: pairAB_def bodyA_def bodyB_def Body_def)
  have d2: "1 < length (system pairDH)" by (simp add: pairDH_def)
  have d3: "collides (system pairDH ! 0) (system pairDH ! 1) = Inr True"
    by (simp add: pairDH_def collides_DH)
  have d4: "0 < mass (system pairDH ! 0) + mass (system pairDH ! 1)"
    by (simp add: pairDH_def bodyD_def bodyH_def Body_def)
  have "\<exists>st'. pair_step conf0 0 1 pairAB = Inr st' \<and>
         mass (system st' ! 0) = 20 \<and>
         rad (system st' ! 0) = (1000 ^ 3 + 1000 ^ 3) powr (1 / 3) \<and>
         pos (system st' ! 0) = Vec 0 0 \<and>
         vel (system st' ! 0) = Vec 0 0"
    using merge_result[OF h1 a2 a3 a4, of conf0]
    by (auto simp add: pairAB_def bodyA_def bodyB_def Body_def)
  moreover have "\<exists>st'. pair_step conf0 0 1 pairDH = Inr st' \<and>
         mass (system st' ! 0) = 40 \<and>
         rad (system st' ! 0) = (1000 ^ 3 + 10000 ^ 3) powr (1 / 3) \<and>
         pos (system st' ! 0) = Vec 3 4 \<and>
         vel (system st' ! 0) = Vec (1 / 4) (- 1)"
    using merge_result[OF h1 d2 d3 d4, of conf0]
    by (auto simp add: pairDH_def bodyD_def bodyH_def Body_def)
  ultimately show ?thesis by (rule conjI)
qed

section \<open>Potential contour lines without bodies\<close>

lemma pymod_zero: "pymod 0 b = (if b = 0 then Inl ZeroDivisionError else Inr 0)"
  by (simp add: pymod_def)

lemma detransform_grid:
  "detransform w (grid_point w xp yp x y) =
     (if scale w = 0 then Inl ZeroDivisionError else Inr (world_point w xp yp x y))"
  by (simp add: detransform_def world_point_def truediv_def Let_def)

lemma contour_cell_empty:
  "contour_cell w fp [] xp yp step res x y pts =
     (if step = 0 then Inl ZeroDivisionError
      else if 0 < res
           then (if scale w = 0 then Inl ZeroDivisionError
                 else Inr (pts @ [world_point w xp yp x y]))
           else Inr pts)"
  by (simp add: contour_cell_def pymod_zero detransform_grid Let_def)

lemma contour_column_empty:
  "contour_column w fp [] xp yp step res x ys pts =
     (if ys = [] then Inr pts
      else if step = 0 then Inl ZeroDivisionError
      else if 0 < res
           then (if scale w = 0 then Inl ZeroDivisionError
                 else Inr (pts @ map (world_point w xp yp x) ys))
           else Inr pts)"
  by (induction ys arbitrary: pts) (simp_all add: contour_cell_empty)

lemma contour_columns_empty:
  "contour_columns w fp [] xp yp step res xs pts =
     (if xs = [] \<or> yp \<le> 0 then Inr pts
      else if step = 0 then Inl ZeroDivisionError
      else if 0 < res
           then (if scale w = 0 then Inl ZeroDivisionError
                 else Inr (pts @ concat (map (\<lambda>x. map (world_point w xp yp x) [0..yp - 1]) xs)))
           else Inr pts)"
  by (induction xs arbitrary: pts) (auto simp add: contour_column_empty)

lemma map_product_concat:
  "map (\<lambda>(x, y). f x y) (List.product xs ys) = concat (map (\<lambda>x. map (f x) ys) xs)"
  by (induction xs) simp_all

lemma upto_empty_iff: "[0..n - 1] = [] \<longleftrightarrow> n \<le> (0::int)"
  by auto

text \<open>
  Claim C5, as stated, on a grid of one cell with the step and tolerance of the program
  and no bodies: the result holds the one grid point.
\<close>

theorem contourLines_empty_system_nonempty: "contourLines view0 (- 2) [] 1 1 0.0001 0.00002 = Inr [Vec (- 50 / 3) (- 25 / 2)]"
  unfolding contourLines_def by (subst contour_columns_empty) (simp add: view0_def world_point_def grid_point_def sub_def add_def m0_def Body_def)

text \<open>
  Claim C5, amended.  With zero bodies the summed potential of every cell is 0, and
  \<open>0 mod step < res\<close> holds exactly when \<open>0 < res\<close>: for a nonzero step and scale the
  sampler returns every grid point, column by column, when the tolerance is positive,
  and the empty list when the tolerance is not positive or the grid has no cell.  On a
  grid with a cell it raises \<open>ZeroDivisionError\<close> for step 0, and for scale 0 with a
  positive tolerance.
\<close>

theorem contourLines_empty_system:
  "contourLines w fp [] xp yp step res =
     (if xp \<le> 0 \<or> yp \<le> 0 then Inr []
      else if step = 0 then Inl ZeroDivisionError
      else if res \<le> 0 then Inr []
      else if scale w = 0 then Inl ZeroDivisionError
      else Inr (map (\<lambda>(x, y). world_point w xp yp x y)
                  (List.product [0..xp - 1] [0..yp - 1])))"
  by (simp add: contourLines_def contour_columns_empty map_product_concat upto_empty_iff
      del: upto_Nil)

section \<open>The pair scan as a run of steps\<close>

lemma steps_append:
  "steps cf (ps @ qs) st =
     (case steps cf ps st of Inl e \<Rightarrow> Inl e | Inr st' \<Rightarrow> steps cf qs st')"
  by (induction ps arbitrary: st) (auto split: sum.splits)

lemma inner_loop_steps: "inner_loop cf i js st = steps cf (map (Pair i) js) st"
  by (induction js arbitrary: st) (auto split: sum.splits)

lemma pair_step_length:
  assumes "i < j" "j < length (system st)" "pair_step cf i j st = Inr st'"
  shows "length (system st') = length (system st)"
  using assms(3) unfolding pair_step_eq[OF assms(1,2)] Let_def
  by (auto split: sum.splits if_splits)

text \<open>An invariant of every step on a pair in range is an invariant of a run of steps.\<close>

lemma steps_invariant:
  assumes step: "\<And>i j s s'. i < j \<Longrightarrow> j < length (system s) \<Longrightarrow> P s
             \<Longrightarrow> pair_step cf i j s = Inr s' \<Longrightarrow> P s'"
    and "\<forall>(i, j) \<in> set ps. i < j \<and> j < length (system st)"
    and "P st" "steps cf ps st = Inr st'"
  shows "P st' \<and> length (system st') = length (system st)"
  using assms(2-)
proof (induction ps arbitrary: st)
  case Nil
  then show ?case by simp
next
  case (Cons p ps)
  obtain i j where p: "p = (i, j)" by (cases p)
  from Cons.prems p have ij: "i < j" "j < length (system st)" by auto
  from Cons.prems p obtain s where s: "pair_step cf i j st = Inr s" "steps cf ps s = Inr st'"
    by (auto split: sum.splits)
  have l: "length (system s) = length (system st)" using pair_step_length[OF ij s(1)] .
  have "P s" using step[OF ij Cons.prems(2) s(1)] .
  moreover have "\<forall>(i, j) \<in> set ps. i < j \<and> j < length (system s)" using Cons.prems(1) l by auto
  ultimately show ?case using Cons.IH[of s] s(2) l by simp
qed

lemma steps_length:
  assumes "\<forall>(i, j) \<in> set ps. i < j \<and> j < length (system st)" "steps cf ps st = Inr st'"
  shows "length (system st') = length (system st)"
  using steps_invariant[where P = "\<lambda>s. True", OF _ assms(1) _ assms(2)] by simp

lemma outer_loop_steps:
  "outer_loop cf is st =
     steps cf (concat (map (\<lambda>i. map (Pair i) [i + 1 ..< length (system st)]) is)) st"
proof (induction "is" arbitrary: st)
  case Nil
  then show ?case by simp
next
  case (Cons i "is")
  let ?n = "length (system st)"
  let ?row = "map (Pair i) [i + 1 ..< ?n]"
  have row: "\<forall>(i, j) \<in> set ?row. i < j \<and> j < ?n" by auto
  show ?case
  proof (cases "steps cf ?row st")
    case (Inl e)
    then show ?thesis by (simp add: inner_loop_steps steps_append)
  next
    case (Inr s)
    have "length (system s) = ?n" using steps_length[OF row Inr] .
    then show ?thesis using Inr Cons.IH[of s] by (simp add: inner_loop_steps steps_append)
  qed
qed

lemma pair_scan_steps:
  "pair_scan cf st = steps cf (pairs (length (system st))) (st\<lparr>delete := []\<rparr>)"
  by (simp add: pair_scan_def pairs_def outer_loop_steps)

lemma in_pairs: "(i, j) \<in> set (pairs n) \<longleftrightarrow> i < j \<and> j < n"
  by (fastforce simp: pairs_def)


section \<open>Momentum over a pass without collisions\<close>

lemma sum_list_map_update:
  fixes f :: "'a \<Rightarrow> real"
  shows "i < length xs \<Longrightarrow>
    sum_list (map f (xs[i := y])) = sum_list (map f xs) - f (xs ! i) + f y"
proof (induction xs arbitrary: i)
  case Nil
  then show ?case by simp
next
  case (Cons x xs)
  then show ?case by (cases i) simp_all
qed

lemma momentum_update2:
  assumes "i < length bs" "j < length bs" "i \<noteq> j"
    and "add (rmul (mass bi) (vel bi)) (rmul (mass bj) (vel bj))
         = add (rmul (mass (bs ! i)) (vel (bs ! i))) (rmul (mass (bs ! j)) (vel (bs ! j)))"
  shows "momentum (bs[i := bi, j := bj]) = momentum bs"
  using assms
  by (simp add: momentum_def sum_list_map_update add_def rmul_def nth_list_update)

lemma momentum_boosts:
  assumes "i < j" "j < length bs"
  shows "momentum (bs[i := boost (fst (boosts t (bs ! i) (bs ! j) F)) (bs ! i),
                      j := boost (snd (boosts t (bs ! i) (bs ! j) F)) (bs ! j)]) = momentum bs"
proof -
  have "add (rmul (mass (bs ! i)) (add (vel (bs ! i)) (fst (boosts t (bs ! i) (bs ! j) F))))
            (rmul (mass (bs ! j)) (add (vel (bs ! j)) (snd (boosts t (bs ! i) (bs ! j) F))))
     = add (rmul (mass (bs ! i)) (vel (bs ! i))) (rmul (mass (bs ! j)) (vel (bs ! j)))"
    by (rule boosts_cancel) simp
  then show ?thesis using assms
    by (intro momentum_update2) (simp_all add: boost_def)
qed

lemma collides_cong:
  "rad a = rad a' \<Longrightarrow> pos a = pos a' \<Longrightarrow> rad b = rad b' \<Longrightarrow> pos b = pos b'
   \<Longrightarrow> collides a b = collides a' b'"
  by (simp add: collides_def cong: sum.case_cong)

lemma map_update_same:
  assumes "i < length xs" "f y = f (xs ! i)"
  shows "map f (xs[i := y]) = map f xs"
  using assms by (intro nth_equalityI) (auto simp: nth_list_update)

lemma pair_step_still:
  assumes q: "quiet (system st)" and ij: "i < j" "j < length (system s)"
    and P: "still st s"
  shows "\<exists>s'. pair_step cf i j s = Inr s' \<and> still st s'"
proof -
  have len: "length (system s) = length (system st)"
    using P unfolding still_def by (metis length_map)
  have n: "\<And>k. k < length (system st) \<Longrightarrow>
      rad (system s ! k) = rad (system st ! k) \<and> pos (system s ! k) = pos (system st ! k)"
    using P len unfolding still_def by (metis nth_map)
  have "collides (system s ! i) (system s ! j) = collides (system st ! i) (system st ! j)"
    using n[of i] n[of j] ij len by (intro collides_cong) simp_all
  also have "\<dots> = Inr False" using q ij len by (simp add: quiet_def)
  finally have c: "collides (system s ! i) (system s ! j) = Inr False" .
  let ?bs = "boosts (dt cf) (system s ! i) (system s ! j)
               (force_spec (force_power cf) (system s ! i) (system s ! j))"
  let ?s' = "s\<lparr>system := (system s)[i := boost (fst ?bs) (system s ! i),
                                        j := boost (snd ?bs) (system s ! j)]\<rparr>"
  have s': "pair_step cf i j s = Inr ?s'"
    unfolding pair_step_eq[OF ij] Let_def c by simp
  have i: "i < length (system s)" "i \<noteq> j" using ij by simp_all
  have "map rad (system ?s') = map rad (system s)" "map pos (system ?s') = map pos (system s)"
       "map mass (system ?s') = map mass (system s)"
    using ij i by (simp_all add: map_update_same boost_def)
  moreover have "momentum (system ?s') = momentum (system s)"
    using momentum_boosts[OF ij] by simp
  ultimately have "still st ?s'" using P unfolding still_def by simp
  with s' show ?thesis by blast
qed

lemma steps_quiet:
  assumes "quiet (system st)" "\<forall>(i, j) \<in> set ps. i < j \<and> j < length (system st)"
    and "still st s"
  shows "\<exists>s'. steps cf ps s = Inr s' \<and> still st s'"
  using assms(2,3)
proof (induction ps arbitrary: s)
  case Nil
  then show ?case by simp
next
  case (Cons p ps)
  obtain i j where p: "p = (i, j)" by (cases p)
  have len: "length (system s) = length (system st)"
    using Cons.prems(2) unfolding still_def by (metis length_map)
  from Cons.prems p len have ij: "i < j" "j < length (system s)" by auto
  from pair_step_still[OF assms(1) ij Cons.prems(2)] obtain s1
    where s1: "pair_step cf i j s = Inr s1" "still st s1" by blast
  from Cons.IH[OF _ s1(2)] Cons.prems(1) obtain s' 
    where "steps cf ps s1 = Inr s'" "still st s'" by auto
  then show ?case using s1(1) p by simp
qed

lemma still_refl: "still st st"
  by (simp add: still_def)

lemma sweep_unmarked: "delete st = [] \<Longrightarrow> sweep st = Inr st"
  by (simp add: sweep_def)

lemma momentum_advance:
  "momentum (map (advance_body cf v) bs) = sub (momentum bs) (rmul (total_mass bs) v)"
proof -
  have m: "\<And>b. mass (advance_body cf v b) = mass b"
    by (simp add: advance_body_def Let_def boost_def move_def addTrace_def clearTrace_def)
  have x: "\<And>b. vel (advance_body cf v b) = add (vel b) (neg v)"
    by (simp add: advance_body_def Let_def boost_def move_def addTrace_def clearTrace_def)
  show ?thesis
    by (induction bs)
       (simp_all add: momentum_def total_mass_def m x sub_def add_def neg_def rmul_def
          algebra_simps)
qed

lemma tick_quiet:
  assumes "quiet (system st)"
  shows "\<exists>st1. pair_scan cf st = Inr st1 \<and> still (st\<lparr>delete := []\<rparr>) st1 \<and>
           tick cf st = Inr (advance cf st1)"
proof -
  let ?s0 = "st\<lparr>delete := []\<rparr>"
  have q: "quiet (system ?s0)" using assms by simp
  have r: "\<forall>(i, j) \<in> set (pairs (length (system st))). i < j \<and> j < length (system ?s0)"
    by (auto simp: in_pairs)
  from steps_quiet[OF q r still_refl] obtain st1 
    where st1: "steps cf (pairs (length (system st))) ?s0 = Inr st1" "still ?s0 st1" by blast
  have d: "delete st1 = []" using st1(2) by (simp add: still_def)
  have "pair_scan cf st = Inr st1" using st1(1) by (simp add: pair_scan_steps)
  moreover have "tick cf st = Inr (advance cf st1)"
    using calculation sweep_unmarked[OF d] by (simp add: tick_def)
  ultimately show ?thesis using st1(2) by blast
qed

lemma sub_eq_self: "sub m x = m \<longleftrightarrow> x = Vec 0 0"
  by (cases m, cases x) (simp add: sub_def)

lemma quiet_two: "quiet [a, b] \<longleftrightarrow> collides a b = Inr False"
  by (auto simp: quiet_def less_Suc_eq)

lemma quiet_duo: "quiet (system duo)"
  by (simp add: duo_def quiet_two collides_def bodyP_def bodyQ_def Body_def radScale_1000
      collision_iff mul_def sub_def power2_eq_square)

lemma pairs_2: "pairs (Suc (Suc 0)) = [(0, Suc 0)]"
  by (simp add: pairs_def)

lemma G_pos: "0 < G"
  by (simp add: G_def)

lemma force_spec_x_nonneg:
  assumes "getX (pos a) \<le> getX (pos b)" "0 \<le> mass a" "0 \<le> mass b"
  shows "0 \<le> getX (force_spec p a b)"
proof -
  let ?dx = "getX (pos b) - getX (pos a)" and ?dy = "getY (pos b) - getY (pos a)"
  let ?d = "sqrt (?dx * ?dx + ?dy * ?dy)"
  have 1: "0 \<le> G * mass a * mass b * ?d powr p"
    using assms G_pos by simp
  have "0 \<le> ?d" by simp
  moreover have "0 \<le> ?dx" using assms(1) by simp
  ultimately have 2: "0 \<le> ?dx / ?d" by simp
  have "0 \<le> G * mass a * mass b * ?d powr p * (?dx / ?d)"
    using 1 2 by (rule mult_nonneg_nonneg)
  then show ?thesis by (simp add: force_spec_def Let_def)
qed

lemma duo_scan:
  assumes "pair_scan conf0 duo = Inr st1"
  shows "1 \<le> getX (getVel (system st1) (InSystem 0))"
proof -
  let ?F = "force_spec (force_power conf0) bodyP bodyQ"
  have c: "collides bodyP bodyQ = Inr False"
    using quiet_duo by (simp add: duo_def quiet_two)
  have ij: "(0::nat) < 1" "1 < length (system (duo\<lparr>delete := []\<rparr>))" by (simp_all add: duo_def)
  have "pair_scan conf0 duo = pair_step conf0 0 1 (duo\<lparr>delete := []\<rparr>)"
    by (simp add: pair_scan_steps pairs_2 duo_def split: sum.splits)
  also have "\<dots> = Inr (duo\<lparr>system := [boost (rmul 1 ?F) bodyP, boost (rmul (- 1) ?F) bodyQ]\<rparr>)"
    unfolding pair_step_eq[OF ij] 
    by (simp add: duo_def c Let_def boosts_def conf0_def) (simp add: bodyP_def bodyQ_def Body_def)
  finally have "st1 = duo\<lparr>system := [boost (rmul 1 ?F) bodyP, boost (rmul (- 1) ?F) bodyQ]\<rparr>"
    using assms by simp
  then have "getX (getVel (system st1) (InSystem 0)) = 1 + getX ?F"
    by (simp add: getVel_def boost_def add_def rmul_def bodyP_def Body_def)
  moreover have "0 \<le> getX ?F"
    by (rule force_spec_x_nonneg) (simp_all add: bodyP_def bodyQ_def Body_def)
  ultimately show ?thesis by simp
qed

text \<open>
  Claim C2, as stated, on two bodies that do not collide, the first being the
  reference body with velocity (1,0): the pass succeeds and changes the total momentum.
\<close>

theorem tick_changes_momentum:
  "\<not> isl (tick conf0 duo) \<and>
   momentum (system (projr (tick conf0 duo))) \<noteq> momentum (system duo)"
proof -
  from tick_quiet[OF quiet_duo, of conf0] obtain st1 where
    r: "pair_scan conf0 duo = Inr st1" "still (duo\<lparr>delete := []\<rparr>) st1"
       "tick conf0 duo = Inr (advance conf0 st1)"
    by blast
  have v: "1 \<le> getX (getVel (system st1) (InSystem 0))" using r(1) by (rule duo_scan)
  have m: "momentum (system st1) = momentum (system duo)"
    and c: "centre st1 = InSystem 0"
    and tm: "total_mass (system st1) = 2"
    using r(2)
    by (simp_all add: still_def total_mass_def duo_def bodyP_def bodyQ_def Body_def)
  have "getX (momentum (system (advance conf0 st1))) \<noteq> getX (momentum (system duo))"
    using v by (simp add: advance_def Let_def momentum_advance m c tm sub_def rmul_def)
  then show ?thesis using r(3) by auto
qed

text \<open>
  Claim C2, amended.  For every registry in which no pair of bodies collides, one pass
  succeeds; the pairwise impulses leave the total momentum unchanged, and the whole pass
  (impulses, frame shift, position advance) lowers it by the total mass times the
  velocity the reference body has after the impulses.  It is unchanged exactly when
  that product is zero.
\<close>

theorem tick_momentum:
  assumes "quiet (system st)"
  shows "\<exists>st1 st'. pair_scan cf st = Inr st1 \<and> tick cf st = Inr st' \<and>
           momentum (system st1) = momentum (system st) \<and>
           momentum (system st') =
             sub (momentum (system st))
                 (rmul (total_mass (system st)) (getVel (system st1) (centre st))) \<and>
           (momentum (system st') = momentum (system st)) =
             (rmul (total_mass (system st)) (getVel (system st1) (centre st)) = Vec 0 0)"
proof -
  from tick_quiet[OF assms, of cf] obtain st1 where
    st1: "pair_scan cf st = Inr st1" "still (st\<lparr>delete := []\<rparr>) st1"
         "tick cf st = Inr (advance cf st1)" by blast
  have m: "momentum (system st1) = momentum (system st)"
    and c: "centre st1 = centre st"
    and tm: "total_mass (system st1) = total_mass (system st)"
    using st1(2) by (simp_all add: still_def total_mass_def)
  have a: "momentum (system (advance cf st1)) =
          sub (momentum (system st))
                 (rmul (total_mass (system st)) (getVel (system st1) (centre st)))"
    by (simp add: advance_def Let_def momentum_advance m c tm)
  then have "(momentum (system (advance cf st1)) = momentum (system st)) =
             (rmul (total_mass (system st)) (getVel (system st1) (centre st)) = Vec 0 0)"
    by (simp only: sub_eq_self)
  with st1 m a show ?thesis by blast
qed

theorem tick_momentum_witness:
  "\<exists>st1 st'. pair_scan conf0 duo = Inr st1 \<and> tick conf0 duo = Inr st' \<and>
           momentum (system st1) = Vec 1 0 \<and>
           momentum (system st') =
             sub (Vec 1 0) (rmul 2 (getVel (system st1) (InSystem 0)))"
proof -
  have h: "quiet (system duo)" by (rule quiet_duo)
  have d: "momentum (system duo) = Vec 1 0" "total_mass (system duo) = 2"
       "centre duo = InSystem 0"
    by (simp_all add: duo_def momentum_def total_mass_def bodyP_def bodyQ_def Body_def)
  from tick_momentum[OF h, of conf0] obtain st1 st' where
    "pair_scan conf0 duo = Inr st1" "tick conf0 duo = Inr st'"
    "momentum (system st1) = momentum (system duo)"
    "momentum (system st') =
       sub (momentum (system duo))
           (rmul (total_mass (system duo)) (getVel (system st1) (centre duo)))"
    by blast
  then show ?thesis unfolding d by blast
qed

section \<open>Positions during the pair scan\<close>

lemma merged_pos: "merged cf a b = Inr c \<Longrightarrow> pos c = pos a"
  by (auto simp: merged_def Let_def Body_def split: sum.splits)

lemma pair_step_unmoved:
  assumes ij: "i < j" "j < length (system s)"
    and P: "unmoved st s" and step: "pair_step cf i j s = Inr s'"
  shows "unmoved st s'"
proof -
  let ?bs = "boosts (dt cf) (system s ! i) (system s ! j)
               (force_spec (force_power cf) (system s ! i) (system s ! j))"
  let ?bi = "boost (fst ?bs) (system s ! i)" and ?bj = "boost (snd ?bs) (system s ! j)"
  have len: "length (system s) = length (system st)" using P by (simp add: unmoved_def)
  have i: "i < length (system s)" "i \<noteq> j" using ij by simp_all
  from step obtain hit where hit: "collides (system s ! i) (system s ! j) = Inr hit"
    unfolding pair_step_eq[OF ij] Let_def by (auto split: sum.splits)
  show ?thesis
  proof (cases hit)
    case True
    with step hit obtain b where b: "merged cf ?bi ?bj = Inr b"
      and s': "s' = s\<lparr>system := (system s)[i := b, j := sentinel],
                      delete := delete s @ [j],
                      centre := detach ((system s)[i := ?bi, j := ?bj]) i j (centre s)\<rparr>"
      unfolding pair_step_eq[OF ij] Let_def by (auto split: sum.splits)
    have "pos b = pos (system s ! i)" using merged_pos[OF b] by (simp add: boost_def)
    then show ?thesis using P i ij unfolding unmoved_def s'
      by (auto simp: nth_list_update sentinel_def Body_def)
  next
    case False
    with step hit have s': "s' = s\<lparr>system := (system s)[i := ?bi, j := ?bj]\<rparr>"
      unfolding pair_step_eq[OF ij] Let_def by simp
    show ?thesis using P i ij unfolding unmoved_def s'
      by (auto simp: nth_list_update boost_def)
  qed
qed

lemma steps_unmoved:
  assumes "\<forall>(i, j) \<in> set ps. i < j \<and> j < length (system st)"
    and "steps cf ps (st\<lparr>delete := []\<rparr>) = Inr s"
  shows "unmoved st s"
proof -
  have 0: "unmoved st (st\<lparr>delete := []\<rparr>)" by (simp add: unmoved_def)
  have r: "\<forall>(i, j) \<in> set ps. i < j \<and> j < length (system (st\<lparr>delete := []\<rparr>))"
    using assms(1) by simp
  show ?thesis
    using steps_invariant[where P = "unmoved st" and cf = cf, OF _ r 0 assms(2)]
      pair_step_unmoved by blast
qed

lemma del_loop_kept:
  assumes "sorted_wrt (>) ds" "del_loop ds s = Inr s'"
  shows "\<forall>b \<in> set (system s'). \<exists>k < length (system s). k \<notin> set ds \<and> b = system s ! k"
  using assms
proof (induction ds arbitrary: s)
  case Nil
  then show ?case by (auto simp: in_set_conv_nth)
next
  case (Cons d ds)
  let ?xs = "system s"
  let ?s1 = "s\<lparr>system := take d ?xs @ drop (d + 1) ?xs, centre := del_ref ?xs d (centre s)\<rparr>"
  from Cons.prems have d: "d < length ?xs" and run: "del_loop ds ?s1 = Inr s'"
    by (auto split: if_splits)
  from Cons.prems(1) have lt: "\<forall>x \<in> set ds. x < d" and srt: "sorted_wrt (>) ds" by auto
  have l1: "length (system ?s1) = length ?xs - 1" using d by simp
  show ?case
  proof
    fix b assume "b \<in> set (system s')"
    with Cons.IH[OF srt run] obtain k where
      k: "k < length (system ?s1)" "k \<notin> set ds" "b = system ?s1 ! k" by blast
    show "\<exists>k < length ?xs. k \<notin> set (d # ds) \<and> b = ?xs ! k"
    proof (cases "k < d")
      case True
      then have "system ?s1 ! k = ?xs ! k" using d by (simp add: nth_append)
      then show ?thesis using True k d by (intro exI[of _ k]) auto
    next
      case False
      then have "system ?s1 ! k = ?xs ! (k + 1)" using d k(1) by (simp add: nth_append)
      moreover have "k + 1 < length ?xs" using k(1) l1 d by simp
      moreover have "k + 1 \<notin> set (d # ds)" using False lt by auto
      ultimately show ?thesis using k(3) by (intro exI[of _ "k + 1"]) simp
    qed
  qed
qed

lemma sweep_kept:
  assumes "sweep s = Inr s'"
  shows "\<forall>b \<in> set (system s'). \<exists>k < length (system s). k \<notin> set (delete s) \<and> b = system s ! k"
proof -
  let ?dl = "rev (sorted_list_of_set (set (delete s)))"
  have "sorted_wrt (<) (sorted_list_of_set (set (delete s)))" by simp
  then have srt: "sorted_wrt (>) ?dl" by (simp add: sorted_wrt_rev)
  have run: "del_loop ?dl (s\<lparr>delete := ?dl\<rparr>) = Inr s'"
    using assms by (simp add: sweep_def Let_def)
  from del_loop_kept[OF srt run] show ?thesis by simp
qed

lemma advance_body_euler:
  "getX (pos (advance_body cf v b)) = getX (pos b) + dt cf * getX (vel (advance_body cf v b))"
  "getY (pos (advance_body cf v b)) = getY (pos b) + dt cf * getY (vel (advance_body cf v b))"
  by (simp_all add: advance_body_def Let_def boost_def move_def addTrace_def clearTrace_def
      add_def rmul_def neg_def)

text \<open>
  Claim C9.  The pair scan is the run of \<open>pair_step\<close> over \<open>pairs\<close>, so the states
  after the prefixes of \<open>pairs\<close> are the states the force evaluations read, the last of
  them the state the scan ends in.  In each of them every slot that is not marked for
  removal holds the position it had when the pass began, and a marked slot holds the
  origin, the position written by the merge that emptied it: no force evaluation reads a
  position that has been advanced.  In the result of the pass every body stands at the
  start position of a slot that was never marked, advanced once by \<open>dt\<close> times the
  velocity the body ends the pass with: positions advance only after the scan and the
  removal of the marked slots, by one explicit Euler step.
\<close>

theorem tick_positions_after_scan:
  assumes "tick cf st = Inr st'"
  shows "\<exists>st1.
     pair_scan cf st = Inr st1 \<and>
     pair_scan cf st = steps cf (pairs (length (system st))) (st\<lparr>delete := []\<rparr>) \<and>
     (\<forall>ps1 ps2 s.
        pairs (length (system st)) = ps1 @ ps2 \<and> steps cf ps1 (st\<lparr>delete := []\<rparr>) = Inr s \<longrightarrow>
        length (system s) = length (system st) \<and>
        (\<forall>k < length (system st).
           if k \<in> set (delete s) then pos (system s ! k) = Vec 0 0
           else pos (system s ! k) = pos (system st ! k))) \<and>
     (\<forall>k < length (system st'). \<exists>m < length (system st).
        m \<notin> set (delete st1) \<and>
        getX (pos (system st' ! k)) = getX (pos (system st ! m)) + dt cf * getX (vel (system st' ! k)) \<and>
        getY (pos (system st' ! k)) = getY (pos (system st ! m)) + dt cf * getY (vel (system st' ! k)))"
proof -
  from assms obtain st1 st2 where
    st1: "pair_scan cf st = Inr st1" and st2: "sweep st1 = Inr st2"
    and st': "st' = advance cf st2"
    by (auto simp: tick_def split: sum.splits)
  have pre: "\<And>ps1 ps2 s. pairs (length (system st)) = ps1 @ ps2 \<Longrightarrow>
      steps cf ps1 (st\<lparr>delete := []\<rparr>) = Inr s \<Longrightarrow> unmoved st s"
  proof -
    fix ps1 ps2 s
    assume p: "pairs (length (system st)) = ps1 @ ps2"
      and s: "steps cf ps1 (st\<lparr>delete := []\<rparr>) = Inr s"
    have "set ps1 \<subseteq> set (pairs (length (system st)))" using p by simp
    then have "\<forall>(i, j) \<in> set ps1. i < j \<and> j < length (system st)" by (auto simp: in_pairs)
    from steps_unmoved[OF this s] show "unmoved st s" .
  qed
  have full: "unmoved st st1"
    using pre[of "pairs (length (system st))" "[]" st1] st1 by (simp add: pair_scan_steps)
  have adv: "\<forall>k < length (system st'). \<exists>m < length (system st).
        m \<notin> set (delete st1) \<and>
        getX (pos (system st' ! k)) = getX (pos (system st ! m)) + dt cf * getX (vel (system st' ! k)) \<and>
        getY (pos (system st' ! k)) = getY (pos (system st ! m)) + dt cf * getY (vel (system st' ! k))"
  proof (intro allI impI)
    fix k assume k: "k < length (system st')"
    then have k2: "k < length (system st2)" by (simp add: st' advance_def Let_def)
    let ?v = "getVel (system st2) (centre st2)"
    have e: "system st' ! k = advance_body cf ?v (system st2 ! k)"
      using k2 by (simp add: st' advance_def Let_def)
    have "system st2 ! k \<in> set (system st2)" using k2 by simp
    with sweep_kept[OF st2] obtain m where
      m: "m < length (system st1)" "m \<notin> set (delete st1)" "system st2 ! k = system st1 ! m"
      by blast
    have "length (system st1) = length (system st)" using full by (simp add: unmoved_def)
    moreover have "pos (system st1 ! m) = pos (system st ! m)"
      using full m(1,2) by (simp add: unmoved_def)
    ultimately show "\<exists>m < length (system st).
        m \<notin> set (delete st1) \<and>
        getX (pos (system st' ! k)) = getX (pos (system st ! m)) + dt cf * getX (vel (system st' ! k)) \<and>
        getY (pos (system st' ! k)) = getY (pos (system st ! m)) + dt cf * getY (vel (system st' ! k))"
      using m advance_body_euler[of cf ?v "system st1 ! m"] unfolding e
      by (intro exI[of _ m]) simp
  qed
  show ?thesis
    using st1 pre adv by (auto simp: pair_scan_steps unmoved_def)
qed



section \<open>A marked slot in a second merge\<close>

lemma no_collision_far:
  assumes "r1 + r2 + 0.05 \<le> d" "d\<^sup>2 \<le> mul (sub p1 p2) (sub p1 p2)"
  shows "\<not> collision p1 r1 p2 r2"
proof
  assume "collision p1 r1 p2 r2"
  then have y: "0 < r1 + r2 + 0.05" "mul (sub p1 p2) (sub p1 p2) < (r1 + r2 + 0.05)\<^sup>2"
    by (simp_all add: collision_iff)
  have "(r1 + r2 + 0.05)\<^sup>2 \<le> d\<^sup>2" using y(1) assms(1) by (intro power_mono) simp_all
  with y(2) assms(2) show False by linarith
qed

lemma radScale_merged_radius:
  "\<exists>x. radScale ((1000 ^ 3 + 1000 ^ 3) powr (1 / 3)) = Inr x \<and> x \<le> 0.01"
proof -
  let ?R = "(1000 ^ 3 + 1000 ^ 3) powr (1 / 3) :: real"
  have p: "0 < ?R" by simp
  have "log 10 ?R = 1 / 3 * log 10 (1000 ^ 3 + 1000 ^ 3)" by (simp add: log_powr)
  also have "log 10 (1000 ^ 3 + 1000 ^ 3 :: real) \<le> log 10 (10 ^ 10)"
    by (subst log_le_cancel_iff) simp_all
  also have "log 10 (10 ^ 10 :: real) = 10" using log10_power[of 10] by simp
  finally have "log 10 ?R \<le> 10 / 3" by simp
  then have "2.5 * (log 10 ?R / 10 ^ 2 - 0.030) \<le> 0.01" by simp
  moreover have "radScale ?R = Inr (2.5 * (log 10 ?R / 10 ^ 2 - 0.030))"
    using p unfolding radScale_def by (simp only: not_le[symmetric] if_False) 
  ultimately show ?thesis by blast
qed


lemma radScale_1: "radScale 1 = Inr (- 0.075)"
  using radScale_power[of 0] by simp

lemma radScale_million: "radScale 1000000 = Inr 0.075"
  using radScale_power[of 6] by simp

lemma collides_X_Y: "collides bodyX bodyY = Inr True"
  by (simp add: collides_def bodyX_def bodyY_def Body_def radScale_1000 collision_iff
      mul_def sub_def)

lemma collides_XY_Z: "collides bodyXY bodyZ = Inr False"
proof -
  obtain x where x: "radScale (rad bodyXY) = Inr x" "x \<le> 0.01"
    using radScale_merged_radius by (auto simp: bodyXY_def Body_def)
  have "\<not> collision (pos bodyXY) x (pos bodyZ) 0.075"
    using x(2) by (intro no_collision_far[where d = 1])
      (simp_all add: bodyXY_def bodyZ_def Body_def mul_def sub_def)
  then show ?thesis
    using x(1) by (simp add: collides_def) (simp add: bodyZ_def Body_def radScale_million)
qed

lemma collides_sentinel_Z: "collides sentinel bodyZ = Inr True"
  by (simp add: collides_def sentinel_def bodyZ_def Body_def radScale_1 radScale_million
      collision_iff mul_def sub_def)

lemma pair_step_merge:
  assumes "i < j" "j < length (system s)"
    and "collides (system s ! i) (system s ! j) = Inr True"
    and "boosts (dt cf) (system s ! i) (system s ! j)
           (force_spec (force_power cf) (system s ! i) (system s ! j)) = (b1, b2)"
    and "merged cf (boost b1 (system s ! i)) (boost b2 (system s ! j)) = Inr b"
  shows "pair_step cf i j s =
     Inr (s\<lparr>system := (system s)[i := b, j := sentinel],
            delete := delete s @ [j],
            centre := detach ((system s)[i := boost b1 (system s ! i),
                                         j := boost b2 (system s ! j)]) i j (centre s)\<rparr>)"
  unfolding pair_step_eq[OF assms(1,2)] Let_def assms(3,4) by (simp add: assms(5))

lemma pair_step_pass:
  assumes "i < j" "j < length (system s)"
    and "collides (system s ! i) (system s ! j) = Inr False"
    and "boosts (dt cf) (system s ! i) (system s ! j)
           (force_spec (force_power cf) (system s ! i) (system s ! j)) = (b1, b2)"
  shows "pair_step cf i j s =
     Inr (s\<lparr>system := (system s)[i := boost b1 (system s ! i),
                                  j := boost b2 (system s ! j)]\<rparr>)"
  unfolding pair_step_eq[OF assms(1,2)] Let_def assms(3,4) by simp

lemma trio_step1:
  "pair_step conf0 0 1 trio =
     Inr (trio\<lparr>system := [bodyXY, sentinel, bodyZ], delete := [1]\<rparr>)"
proof -
  have ij: "(0::nat) < 1" "1 < length (system trio)" by (simp_all add: trio_def)
  have s: "system trio ! 0 = bodyX" "system trio ! 1 = bodyY" by (simp_all add: trio_def)
  have F: "force_spec (force_power conf0) bodyX bodyY = Vec 0 0"
    by (simp add: force_spec_def bodyX_def bodyY_def Body_def)
  have bs: "boosts (dt conf0) (system trio ! 0) (system trio ! 1)
           (force_spec (force_power conf0) (system trio ! 0) (system trio ! 1)) = (Vec 0 0, Vec 0 0)"
    unfolding s F by (simp add: boosts_def rmul_def)
  have b: "boost (Vec 0 0) bodyX = bodyX" "boost (Vec 0 0) bodyY = bodyY"
    by (simp_all add: boost_def add_def bodyX_def bodyY_def Body_def)
  have m: "merged conf0 (boost (Vec 0 0) (system trio ! 0)) (boost (Vec 0 0) (system trio ! 1))
           = Inr bodyXY"
    unfolding s b
    by (simp add: merged_def Let_def truediv_def add_def rmul_def bodyX_def bodyY_def
        bodyXY_def Body_def int_half_def)
  have c: "collides (system trio ! 0) (system trio ! 1) = Inr True"
    unfolding s by (rule collides_X_Y)
  show ?thesis
    unfolding pair_step_merge[OF ij c bs m]
    by (simp add: trio_def detach_def)
qed


lemma trio_row0:
  "\<exists>b1 b2. steps conf0 [(0, 1), (0, 2)] (trio\<lparr>delete := []\<rparr>) =
     Inr (trio\<lparr>system := [boost b1 bodyXY, sentinel, boost b2 bodyZ], delete := [1]\<rparr>)"
proof -
  let ?s1 = "trio\<lparr>system := [bodyXY, sentinel, bodyZ], delete := [1]\<rparr>"
  have t: "trio\<lparr>delete := []\<rparr> = trio" by (simp add: trio_def)
  obtain b1 b2 where bs: "boosts (dt conf0) (system ?s1 ! 0) (system ?s1 ! 2)
           (force_spec (force_power conf0) (system ?s1 ! 0) (system ?s1 ! 2)) = (b1, b2)"
    by (cases "boosts (dt conf0) (system ?s1 ! 0) (system ?s1 ! 2)
           (force_spec (force_power conf0) (system ?s1 ! 0) (system ?s1 ! 2))")
  have ij: "(0::nat) < 2" "2 < length (system ?s1)" by simp_all
  have c: "collides (system ?s1 ! 0) (system ?s1 ! 2) = Inr False"
    by (simp add: collides_XY_Z)
  have "pair_step conf0 0 2 ?s1 =
      Inr (trio\<lparr>system := [boost b1 bodyXY, sentinel, boost b2 bodyZ], delete := [1]\<rparr>)"
    unfolding pair_step_pass[OF ij c bs] by simp
  then have "steps conf0 [(0, 1), (0, 2)] (trio\<lparr>delete := []\<rparr>) =
     Inr (trio\<lparr>system := [boost b1 bodyXY, sentinel, boost b2 bodyZ], delete := [1]\<rparr>)"
    unfolding t by (simp only: steps.simps trio_step1 sum.case)
  then show ?thesis by blast
qed

lemma trio_step3:
  "\<exists>g. mass g = 5 \<and>
     pair_step conf0 1 2 (trio\<lparr>system := [x, sentinel, boost b2 bodyZ], delete := [1]\<rparr>) =
       Inr (trio\<lparr>system := [x, g, sentinel], delete := [1, 2]\<rparr>)"
proof -
  let ?s2 = "trio\<lparr>system := [x, sentinel, boost b2 bodyZ], delete := [1]\<rparr>"
  have ij: "(1::nat) < 2" "2 < length (system ?s2)" by simp_all
  have "collides sentinel (boost b2 bodyZ) = collides sentinel bodyZ"
    by (rule collides_cong) (simp_all add: boost_def)
  then have c: "collides (system ?s2 ! 1) (system ?s2 ! 2) = Inr True"
    by (simp add: collides_sentinel_Z)
  have bs: "boosts (dt conf0) (system ?s2 ! 1) (system ?s2 ! 2)
           (force_spec (force_power conf0) (system ?s2 ! 1) (system ?s2 ! 2)) = (Vec 0 0, Vec 0 0)"
    by (simp add: boosts_def sentinel_def Body_def)
  have "mass (boost (Vec 0 0) (system ?s2 ! 1)) + mass (boost (Vec 0 0) (system ?s2 ! 2)) \<noteq> 0"
    by (simp add: boost_def sentinel_def bodyZ_def Body_def)
  from merged_eq[OF this, of conf0] obtain g where
    g: "merged conf0 (boost (Vec 0 0) (system ?s2 ! 1)) (boost (Vec 0 0) (system ?s2 ! 2)) = Inr g"
       "mass g = mass (boost (Vec 0 0) (system ?s2 ! 1)) + mass (boost (Vec 0 0) (system ?s2 ! 2))"
    by (simp add: Body_def)
  have "mass g = 5" using g(2) by (simp add: boost_def sentinel_def bodyZ_def Body_def)
  moreover have "pair_step conf0 1 2 ?s2 = Inr (trio\<lparr>system := [x, g, sentinel], delete := [1, 2]\<rparr>)"
    unfolding pair_step_merge[OF ij c bs g(1)] by (simp add: trio_def detach_def)
  ultimately show ?thesis by blast
qed

lemma pairs_trio: "pairs (length (system trio)) = [(0, 1), (0, 2), (1, 2)]"
  by (simp add: pairs_def trio_def upt_rec)

lemma sweep_12:
  "sweep (trio\<lparr>system := [x, g, y], delete := [1, 2]\<rparr>) =
     Inr (trio\<lparr>system := [x], delete := [2, 1]\<rparr>)"
  by (simp add: sweep_def sorted_list_of_set_sort_remdups trio_def del_ref_def)

lemma trio_scan:
  "\<exists>b1 g. pair_scan conf0 trio =
      Inr (trio\<lparr>system := [boost b1 bodyXY, g, sentinel], delete := [1, 2]\<rparr>)"
proof -
  obtain b1 b2 where 2: "steps conf0 [(0, 1), (0, 2)] (trio\<lparr>delete := []\<rparr>) =
     Inr (trio\<lparr>system := [boost b1 bodyXY, sentinel, boost b2 bodyZ], delete := [1]\<rparr>)"
    using trio_row0 by blast
  obtain g where g:
    "pair_step conf0 1 2 (trio\<lparr>system := [boost b1 bodyXY, sentinel, boost b2 bodyZ], delete := [1]\<rparr>) =
       Inr (trio\<lparr>system := [boost b1 bodyXY, g, sentinel], delete := [1, 2]\<rparr>)"
    using trio_step3 by blast
  have "steps conf0 ([(0, 1), (0, 2)] @ [(1, 2)]) (trio\<lparr>delete := []\<rparr>) =
      Inr (trio\<lparr>system := [boost b1 bodyXY, g, sentinel], delete := [1, 2]\<rparr>)"
    unfolding steps_append 2 by (simp only: steps.simps g sum.case)
  then have "pair_scan conf0 trio =
      Inr (trio\<lparr>system := [boost b1 bodyXY, g, sentinel], delete := [1, 2]\<rparr>)"
    by (simp add: pair_scan_steps pairs_trio)
  then show ?thesis by blast
qed

theorem tick_positions_after_scan_witness:
  "\<exists>st'. tick conf0 trio = Inr st' \<and> length (system st') = 1 \<and>
      getX (pos (system st' ! 0)) = 10 + getX (vel (system st' ! 0)) \<and>
      getY (pos (system st' ! 0)) = getY (vel (system st' ! 0))"
proof -
  obtain b1 g where sc: "pair_scan conf0 trio =
      Inr (trio\<lparr>system := [boost b1 bodyXY, g, sentinel], delete := [1, 2]\<rparr>)"
    using trio_scan by blast
  let ?st' = "advance conf0 (trio\<lparr>system := [boost b1 bodyXY], delete := [2, 1]\<rparr>)"
  have t: "tick conf0 trio = Inr ?st'"
    unfolding tick_def sc by (simp only: sweep_12 sum.case)
  have l: "length (system ?st') = 1" by (simp add: advance_def Let_def)
  from tick_positions_after_scan[OF t] obtain st1 where
    st1: "pair_scan conf0 trio = Inr st1"
    and adv: "\<forall>k < length (system ?st'). \<exists>m < length (system trio).
        m \<notin> set (delete st1) \<and>
        getX (pos (system ?st' ! k)) = getX (pos (system trio ! m)) + dt conf0 * getX (vel (system ?st' ! k)) \<and>
        getY (pos (system ?st' ! k)) = getY (pos (system trio ! m)) + dt conf0 * getY (vel (system ?st' ! k))"
    by blast
  have "st1 = trio\<lparr>system := [boost b1 bodyXY, g, sentinel], delete := [1, 2]\<rparr>"
    using st1 sc by simp
  then have d: "delete st1 = [1, 2]" by simp
  from adv l obtain m where m: "m < length (system trio)" "m \<notin> set (delete st1)"
    "getX (pos (system ?st' ! 0)) = getX (pos (system trio ! m)) + dt conf0 * getX (vel (system ?st' ! 0))"
    "getY (pos (system ?st' ! 0)) = getY (pos (system trio ! m)) + dt conf0 * getY (vel (system ?st' ! 0))"
    by auto
  have "m = 0" using m(1,2) d by (auto simp: trio_def less_Suc_eq numeral_3_eq_3)
  then have "getX (pos (system ?st' ! 0)) = 10 + getX (vel (system ?st' ! 0))"
    "getY (pos (system ?st' ! 0)) = getY (vel (system ?st' ! 0))"
    using m(3,4) by (simp_all add: trio_def bodyX_def Body_def conf0_def)
  with t l show ?thesis by blast
qed

text \<open>
  Claim C3 on the registry \<open>trio\<close>.  The merge of the pair (0,1) empties slot 1 and marks
  it.  The placeholder in slot 1 then passes the collision test with body Z of slot 2:
  the pair (1,2) merges, the body of mass 5 it makes is put into the marked slot 1, and
  slot 2 is marked.  Both slots are removed: the pass returns one body of mass 20 from
  bodies of mass 10, 10 and 5.
\<close>

theorem marked_slot_merges_again:
  "\<exists>s1 s st'.
     steps conf0 [(0, 1)] (trio\<lparr>delete := []\<rparr>) = Inr s1 \<and>
     delete s1 = [1] \<and> system s1 ! 1 = sentinel \<and>
     pair_scan conf0 trio = Inr s \<and>
     delete s = [1, 2] \<and> mass (system s ! 1) = 5 \<and> system s ! 2 = sentinel \<and>
     tick conf0 trio = Inr st' \<and>
     map mass (system st') = [20] \<and> map mass (system trio) = [10, 10, 5]"
proof -
  have t: "trio\<lparr>delete := []\<rparr> = trio" by (simp add: trio_def)
  have 1: "steps conf0 [(0, 1)] (trio\<lparr>delete := []\<rparr>) =
     Inr (trio\<lparr>system := [bodyXY, sentinel, bodyZ], delete := [1]\<rparr>)"
    unfolding t by (simp only: steps.simps trio_step1 sum.case)
  obtain b1 b2 where 2: "steps conf0 [(0, 1), (0, 2)] (trio\<lparr>delete := []\<rparr>) =
     Inr (trio\<lparr>system := [boost b1 bodyXY, sentinel, boost b2 bodyZ], delete := [1]\<rparr>)"
    using trio_row0 by blast
  obtain g where g: "mass g = 5"
    "pair_step conf0 1 2 (trio\<lparr>system := [boost b1 bodyXY, sentinel, boost b2 bodyZ], delete := [1]\<rparr>) =
       Inr (trio\<lparr>system := [boost b1 bodyXY, g, sentinel], delete := [1, 2]\<rparr>)"
    using trio_step3 by blast
  let ?s = "trio\<lparr>system := [boost b1 bodyXY, g, sentinel], delete := [1, 2]\<rparr>"
  have "steps conf0 ([(0, 1), (0, 2)] @ [(1, 2)]) (trio\<lparr>delete := []\<rparr>) = Inr ?s"
    unfolding steps_append 2 by (simp only: steps.simps g(2) sum.case)
  then have 3: "pair_scan conf0 trio = Inr ?s"
    by (simp add: pair_scan_steps pairs_trio)
  have 4: "tick conf0 trio =
     Inr (advance conf0 (trio\<lparr>system := [boost b1 bodyXY], delete := [2, 1]\<rparr>))"
    unfolding tick_def 3 by (simp only: sweep_12 sum.case)
  have 5: "map mass (system (advance conf0 (trio\<lparr>system := [boost b1 bodyXY], delete := [2, 1]\<rparr>))) = [20]"
    by (simp add: advance_def advance_body_def Let_def conf0_def boost_def move_def bodyXY_def Body_def)
  have 6: "map mass (system trio) = [10, 10, 5]"
    by (simp add: trio_def bodyX_def bodyY_def bodyZ_def Body_def)
  show ?thesis
    using 1 3 4 5 6 g(1) by simp
qed

end
